theory Spec2Isabelle
  imports Complex_Main "HOL-Library.Word" "HOL-Library.Signed_Division"
begin

section \<open>Data model of \<^verbatim>\<open>render.go\<close>\<close>

text \<open>
  Go's \<^verbatim>\<open>int\<close> is a two's-complement machine integer; it is modelled at the width it has
  on the 64-bit platforms (amd64, arm64): \<open>+\<close>, \<open>-\<close> and \<open>*\<close> wrap around, comparisons are
  signed (\<open><s\<close>, \<open>\<le>s\<close>), and \<^verbatim>\<open>/\<close> truncates towards zero and panics on a zero divisor.
  The JSON decoder only yields values of this type, so every \<open>64 word\<close> is a possible input.
\<close>

type_synonym go_int = "64 word"

datatype error =
    IndexOutOfRange    \<comment> \<open>runtime panic: index out of range\<close>
  | DivideByZero       \<comment> \<open>runtime panic: integer divide by zero\<close>
  | Fatal string       \<comment> \<open>\<^verbatim>\<open>log.Fatalln\<close> / \<^verbatim>\<open>log.Fatalf\<close>: message, then exit status 1\<close>

text \<open>\<^verbatim>\<open>a / b\<close> on \<^verbatim>\<open>int\<close> for a divisor that is not zero.\<close>

definition quo :: "go_int \<Rightarrow> go_int \<Rightarrow> go_int" where
  "quo a b = word_of_int (sint a sdiv sint b)"

text \<open>\<^verbatim>\<open>a / b\<close> on \<^verbatim>\<open>int\<close> where the divisor is a run-time value.\<close>

definition checked_quo :: "go_int \<Rightarrow> go_int \<Rightarrow> error + go_int" where
  "checked_quo a b = (if b = 0 then Inl DivideByZero else Inr (quo a b))"

text \<open>\<^verbatim>\<open>a % b\<close> on \<^verbatim>\<open>int\<close> for a divisor that is not zero.\<close>

definition rem :: "go_int \<Rightarrow> go_int \<Rightarrow> go_int" where
  "rem a b = word_of_int (sint a smod sint b)"

text \<open>
  \<^verbatim>\<open>float64(x)\<close>. Floating point is idealised: values of type \<^verbatim>\<open>float64\<close> are real numbers
  and their arithmetic is exact, so no rounding is modelled. (Go yields an infinity or a
  NaN where a \<^verbatim>\<open>float64\<close> is divided by zero; the quotient is \<open>0\<close> here.)
\<close>

definition float64 :: "go_int \<Rightarrow> real" where
  "float64 x = real_of_int (sint x)"

subsection \<open>Constants\<close>

definition BotSize :: go_int where "BotSize = 60"
definition MaxBotSpeed :: go_int where "MaxBotSpeed = 12"
definition MaxBotHealth :: go_int where "MaxBotHealth = 12"
definition Padding :: go_int where "Padding = BotSize * 2"
definition ShrinkPercent :: go_int where "ShrinkPercent = 75"
definition GridLineSpacing :: go_int where "GridLineSpacing = 180"
definition PowerColorWeight :: go_int where "PowerColorWeight = quo 255 12"

subsection \<open>Structs\<close>

text \<open>\<^verbatim>\<open>image.Point\<close> and \<^verbatim>\<open>image.Rectangle\<close> of the standard library.\<close>

record image_Point =
  Point_X :: go_int
  Point_Y :: go_int

record image_Rectangle =
  Rect_Min :: image_Point
  Rect_Max :: image_Point

record Bot =
  PID :: go_int
  BID :: go_int
  X :: go_int
  Y :: go_int
  TX :: go_int
  TY :: go_int
  Health :: go_int
  Fired :: bool
  HitX :: go_int
  HitY :: go_int
  Scrap :: "64 word"
  Shield :: bool
  FPow :: go_int
  MPow :: go_int
  SPow :: go_int

record Tick =
  Tick :: go_int
  Bots :: "Bot list"

record PointTransformer =
  Bounds :: image_Rectangle
  ratio :: real

section \<open>Bounds of a tick\<close>

text \<open>One iteration of the \<^verbatim>\<open>range t.Bots\<close> loop: the four updates, in the source's order.\<close>

definition Bounds_body :: "Bot \<Rightarrow> image_Rectangle \<Rightarrow> image_Rectangle" where
  "Bounds_body bt bounds =
    (let b1 = (if Point_X (Rect_Max bounds) <s X bt
               then bounds\<lparr>Rect_Max := (Rect_Max bounds)\<lparr>Point_X := X bt\<rparr>\<rparr> else bounds);
         b2 = (if Point_Y (Rect_Max b1) <s Y bt
               then b1\<lparr>Rect_Max := (Rect_Max b1)\<lparr>Point_Y := Y bt\<rparr>\<rparr> else b1);
         b3 = (if X bt <s Point_X (Rect_Min b2)
               then b2\<lparr>Rect_Min := (Rect_Min b2)\<lparr>Point_X := X bt\<rparr>\<rparr> else b2);
         b4 = (if Y bt <s Point_Y (Rect_Min b3)
               then b3\<lparr>Rect_Min := (Rect_Min b3)\<lparr>Point_Y := Y bt\<rparr>\<rparr> else b3)
     in b4)"

fun Bounds_loop :: "Bot list \<Rightarrow> image_Rectangle \<Rightarrow> image_Rectangle" where
  "Bounds_loop [] bounds = bounds"
| "Bounds_loop (bt # bots) bounds = Bounds_loop bots (Bounds_body bt bounds)"

text \<open>\<^verbatim>\<open>func (t *Tick) Bounds()\<close>: \<^verbatim>\<open>t.Bots[0]\<close> panics on an empty slice.\<close>

definition Tick_Bounds :: "Tick \<Rightarrow> error + image_Rectangle" where
  "Tick_Bounds t =
    (case Bots t of
       [] \<Rightarrow> Inl IndexOutOfRange
     | b0 # _ \<Rightarrow>
         Inr (Bounds_loop (Bots t)
               \<lparr>Rect_Min = \<lparr>Point_X = X b0, Point_Y = Y b0\<rparr>,
                Rect_Max = \<lparr>Point_X = X b0, Point_Y = Y b0\<rparr>\<rparr>))"

section \<open>The point transformer\<close>

text \<open>\<^verbatim>\<open>func NewPointTransformer(bounds image.Rectangle, padding, maxDim int)\<close>\<close>

definition NewPointTransformer :: "image_Rectangle \<Rightarrow> go_int \<Rightarrow> go_int \<Rightarrow> PointTransformer" where
  "NewPointTransformer bounds padding maxDim =
    (let minX = Point_X (Rect_Min bounds) - padding;
         minY = Point_Y (Rect_Min bounds) - padding;
         maxX = Point_X (Rect_Max bounds) + padding;
         maxY = Point_Y (Rect_Max bounds) + padding;
         xLength = maxX - minX;
         yLength = maxY - minY
     in if yLength <s xLength then
          (let extra = xLength - yLength
           in \<lparr>Bounds = \<lparr>Rect_Min = \<lparr>Point_X = minX, Point_Y = minY - quo extra 2\<rparr>,
                         Rect_Max = \<lparr>Point_X = maxX, Point_Y = maxY + quo extra 2\<rparr>\<rparr>,
               ratio = float64 maxDim / float64 xLength\<rparr>)
        else
          (let extra = yLength - xLength
           in \<lparr>Bounds = \<lparr>Rect_Min = \<lparr>Point_X = minX - quo extra 2, Point_Y = minY\<rparr>,
                         Rect_Max = \<lparr>Point_X = maxX + quo extra 2, Point_Y = maxY\<rparr>\<rparr>,
               ratio = float64 maxDim / float64 yLength\<rparr>))"

text \<open>\<^verbatim>\<open>func (pt PointTransformer) X(x int)\<close>, \<^verbatim>\<open>Y(y int)\<close> and \<^verbatim>\<open>Resize(val int)\<close>\<close>

definition PointTransformer_X :: "PointTransformer \<Rightarrow> go_int \<Rightarrow> real" where
  "PointTransformer_X pt x = float64 (x + (- 1) * Point_X (Rect_Min (Bounds pt))) * ratio pt"

definition PointTransformer_Y :: "PointTransformer \<Rightarrow> go_int \<Rightarrow> real" where
  "PointTransformer_Y pt y = float64 (y + (- 1) * Point_Y (Rect_Min (Bounds pt))) * ratio pt"

definition Resize :: "PointTransformer \<Rightarrow> go_int \<Rightarrow> real" where
  "Resize pt val = float64 val * ratio pt"

section \<open>The viewport policy of \<^verbatim>\<open>main\<close>\<close>

text \<open>
  The first \<^verbatim>\<open>if\<close> of the loop body: the tick's bounds, grown by \<^verbatim>\<open>BotSize\<close>, leave the
  transformer's box on one of the four sides.
\<close>

definition overflows :: "image_Rectangle \<Rightarrow> PointTransformer \<Rightarrow> bool" where
  "overflows tickBounds pt \<longleftrightarrow>
     Point_Y (Rect_Min tickBounds) - BotSize <s Point_Y (Rect_Min (Bounds pt)) \<or>
     Point_X (Rect_Min tickBounds) - BotSize <s Point_X (Rect_Min (Bounds pt)) \<or>
     Point_Y (Rect_Max (Bounds pt)) <s Point_Y (Rect_Max tickBounds) + BotSize \<or>
     Point_X (Rect_Max (Bounds pt)) <s Point_X (Rect_Max tickBounds) + BotSize"

text \<open>
  The condition of the second \<^verbatim>\<open>if\<close>. \<^verbatim>\<open>&&\<close> evaluates its right operand only when the
  left one holds, so the division by \<^verbatim>\<open>ptXSize\<close> happens only then.
\<close>

definition shrink_check :: "image_Rectangle \<Rightarrow> PointTransformer \<Rightarrow> error + bool" where
  "shrink_check tickBounds pt =
    (let thisYSize = Point_Y (Rect_Max tickBounds) - Point_Y (Rect_Min tickBounds);
         thisXSize = Point_X (Rect_Max tickBounds) - Point_X (Rect_Min tickBounds);
         ptYSize = Point_Y (Rect_Max (Bounds pt)) - Point_Y (Rect_Min (Bounds pt));
         ptXSize = Point_X (Rect_Max (Bounds pt)) - Point_X (Rect_Min (Bounds pt))
     in case checked_quo (thisYSize * 100) ptYSize of
          Inl e \<Rightarrow> Inl e
        | Inr qy \<Rightarrow>
            if qy \<le>s ShrinkPercent then
              (case checked_quo (thisXSize * 100) ptXSize of
                 Inl e \<Rightarrow> Inl e
               | Inr qx \<Rightarrow> Inr (qx \<le>s ShrinkPercent))
            else Inr False)"

text \<open>Both \<^verbatim>\<open>if\<close>s in sequence: the transformer that renders the tick.\<close>

definition next_transformer ::
  "go_int \<Rightarrow> PointTransformer \<Rightarrow> image_Rectangle \<Rightarrow> error + PointTransformer" where
  "next_transformer imageSize pt tickBounds =
    (let pt1 = (if overflows tickBounds pt
                then NewPointTransformer tickBounds Padding imageSize else pt)
     in case shrink_check tickBounds pt1 of
          Inl e \<Rightarrow> Inl e
        | Inr shrink \<Rightarrow>
            Inr (if shrink then NewPointTransformer tickBounds Padding imageSize else pt1))"

section \<open>Drawing one tick\<close>

text \<open>
  The calls into the \<^verbatim>\<open>draw2d\<close> graphic context are recorded as the sequence of shapes
  they draw, with the coordinates the transformer gives them.
\<close>

datatype shape = Circle | Hexagon

datatype draw_op =
    GridLine real real real real
  | Letter char real real real
  | Shot real real real real
  | Explosion real real real
  | Body shape "8 word" "8 word" "8 word" real real real
  | HealthMark shape real real real
  | ShieldRing real real real

text \<open>
  The two grid loops count \<^verbatim>\<open>x\<close> (or \<^verbatim>\<open>y\<close>) up while it is at most the box's maximum;
  \<^verbatim>\<open>x++\<close> wraps around, so a loop whose bound is the largest \<^verbatim>\<open>int\<close> never ends.
\<close>

partial_function (option) grid_x :: "PointTransformer \<Rightarrow> go_int \<Rightarrow> draw_op list \<Rightarrow> draw_op list option" where
  "grid_x pt x ops =
    (if x \<le>s Point_X (Rect_Max (Bounds pt)) then
       grid_x pt (x + 1)
         (if rem x GridLineSpacing = 0
          then ops @ [GridLine (PointTransformer_X pt x)
                               (PointTransformer_Y pt (Point_Y (Rect_Min (Bounds pt))))
                               (PointTransformer_X pt x)
                               (PointTransformer_Y pt (Point_Y (Rect_Max (Bounds pt))))]
          else ops)
     else Some ops)"

partial_function (option) grid_y :: "PointTransformer \<Rightarrow> go_int \<Rightarrow> draw_op list \<Rightarrow> draw_op list option" where
  "grid_y pt y ops =
    (if y \<le>s Point_Y (Rect_Max (Bounds pt)) then
       grid_y pt (y + 1)
         (if rem y GridLineSpacing = 0
          then ops @ [GridLine (PointTransformer_X pt (Point_X (Rect_Min (Bounds pt))))
                               (PointTransformer_Y pt y)
                               (PointTransformer_X pt (Point_X (Rect_Max (Bounds pt))))
                               (PointTransformer_Y pt y)]
          else ops)
     else Some ops)"

text \<open>The logo: nine letters from \<^verbatim>\<open>sx, sy := -650, -100\<close>, 150 apart.\<close>

definition logo :: "PointTransformer \<Rightarrow> draw_op list" where
  "logo pt =
    (let sy = - 100; unit = Resize pt 100;
         glyph = (\<lambda>c sx. Letter c (PointTransformer_X pt sx) (PointTransformer_Y pt sy) unit)
     in [glyph CHR ''S'' (- 650), glyph CHR ''C'' (- 500), glyph CHR ''R'' (- 350),
         glyph CHR ''A'' (- 200), glyph CHR ''P'' (- 50), glyph CHR ''P'' 100,
         glyph CHR ''E'' 250, glyph CHR ''R'' 400, glyph CHR ''S'' 550])"

fun draw_shots :: "PointTransformer \<Rightarrow> Bot list \<Rightarrow> draw_op list" where
  "draw_shots pt [] = []"
| "draw_shots pt (bt # bots) =
    (if Fired bt
     then [Shot (PointTransformer_X pt (HitX bt)) (PointTransformer_Y pt (HitY bt))
                (PointTransformer_X pt (X bt)) (PointTransformer_Y pt (Y bt))]
     else []) @ draw_shots pt bots"

fun draw_explosions :: "PointTransformer \<Rightarrow> Bot list \<Rightarrow> draw_op list" where
  "draw_explosions pt [] = []"
| "draw_explosions pt (bt # bots) =
    (if Health bt \<le>s 0
     then [Explosion (PointTransformer_X pt (X bt)) (PointTransformer_Y pt (Y bt))
                     (Resize pt (BotSize * 2))]
     else []) @ draw_explosions pt bots"

text \<open>The message of the \<^verbatim>\<open>log.Fatalf\<close> in the last loop, with its line feed.\<close>

definition unsupported_message :: string where
  "unsupported_message = ''This program does not support more than two players.'' @ [CHR 0x0A]"

text \<open>
  The body of the last loop for one living bot: the body, the health mark when
  \<^verbatim>\<open>healthSize > 0\<close>, then the shield. Any \<^verbatim>\<open>PID\<close> other than 1 and 2 ends the process.
\<close>

definition draw_body :: "PointTransformer \<Rightarrow> Bot \<Rightarrow> error + draw_op list" where
  "draw_body pt bt =
    (let r = ucast (PowerColorWeight * FPow bt) :: 8 word;
         g = ucast (PowerColorWeight * MPow bt) :: 8 word;
         b = ucast (PowerColorWeight * SPow bt) :: 8 word;
         healthSize = float64 (MaxBotHealth - Health bt) / float64 MaxBotHealth;
         x = PointTransformer_X pt (X bt);
         y = PointTransformer_Y pt (Y bt);
         radius = Resize pt (quo BotSize 2);
         shield = (if Shield bt then [ShieldRing x y (radius * 1.1)] else [])
     in if PID bt = 1 then
          Inr ([Body Circle r g b x y radius]
               @ (if 0 < healthSize then [HealthMark Circle x y (radius * healthSize)] else [])
               @ shield)
        else if PID bt = 2 then
          Inr ([Body Hexagon r g b x y radius]
               @ (if 0 < healthSize then [HealthMark Hexagon x y (radius * healthSize)] else [])
               @ shield)
        else Inl (Fatal unsupported_message))"

fun draw_bodies :: "PointTransformer \<Rightarrow> Bot list \<Rightarrow> error + draw_op list" where
  "draw_bodies pt [] = Inr []"
| "draw_bodies pt (bt # bots) =
    (if Health bt \<le>s 0 then draw_bodies pt bots
     else case draw_body pt bt of
            Inl e \<Rightarrow> Inl e
          | Inr ops \<Rightarrow>
              (case draw_bodies pt bots of
                 Inl e \<Rightarrow> Inl e
               | Inr rest \<Rightarrow> Inr (ops @ rest)))"

text \<open>
  The image of one tick: the transformer in force and what was drawn with it. The result
  is \<open>None\<close> when a grid loop does not end.
\<close>

record frame =
  transformer :: PointTransformer
  drawing :: "draw_op list"

definition render_tick :: "PointTransformer \<Rightarrow> Tick \<Rightarrow> (error + frame) option" where
  "render_tick pt tick =
    (case grid_x pt (Point_X (Rect_Min (Bounds pt))) [] of
       None \<Rightarrow> None
     | Some gx \<Rightarrow>
         (case grid_y pt (Point_Y (Rect_Min (Bounds pt))) gx of
            None \<Rightarrow> None
          | Some gy \<Rightarrow>
              (let ops = gy @ logo pt @ draw_shots pt (Bots tick)
                         @ draw_explosions pt (Bots tick)
               in case draw_bodies pt (Bots tick) of
                    Inl e \<Rightarrow> Some (Inl e)
                  | Inr bodies \<Rightarrow> Some (Inr \<lparr>transformer = pt, drawing = ops @ bodies\<rparr>))))"

section \<open>The main loop\<close>

text \<open>
  The slices \<^verbatim>\<open>drawn\<close> and \<^verbatim>\<open>delays\<close>, made with one slot per tick and written by index.
  The quantize workers run beside the loop and are not part of this sequential model:
  slot \<open>i\<close> of \<open>drawn\<close> keeps the image that a worker converts into slot \<open>i\<close> of
  \<^verbatim>\<open>converted\<close>.
\<close>

record buffers =
  drawn :: "frame option list"
  delays :: "go_int list"

fun main_loop ::
  "go_int \<Rightarrow> go_int \<Rightarrow> PointTransformer \<Rightarrow> nat \<Rightarrow> Tick list \<Rightarrow> buffers \<Rightarrow> (error + buffers) option" where
  "main_loop imageSize ticksPerSecond pt i [] bufs = Some (Inr bufs)"
| "main_loop imageSize ticksPerSecond pt i (tick # ticks) bufs =
    (case Tick_Bounds tick of
       Inl e \<Rightarrow> Some (Inl e)
     | Inr tickBounds \<Rightarrow>
         (case next_transformer imageSize pt tickBounds of
            Inl e \<Rightarrow> Some (Inl e)
          | Inr pt' \<Rightarrow>
              (case render_tick pt' tick of
                 None \<Rightarrow> None
               | Some (Inl e) \<Rightarrow> Some (Inl e)
               | Some (Inr img) \<Rightarrow>
                   (case checked_quo 100 ticksPerSecond of
                      Inl e \<Rightarrow> Some (Inl e)
                    | Inr d \<Rightarrow>
                        main_loop imageSize ticksPerSecond pt' (Suc i) ticks
                          (bufs\<lparr>drawn := (drawn bufs)[i := Some img],
                                delays := (delays bufs)[i := d]\<rparr>)))))"

text \<open>\<^verbatim>\<open>// Let first and last frame linger\<close>: the two assignments after the loop.\<close>

definition linger :: "go_int \<Rightarrow> go_int list \<Rightarrow> error + go_int list" where
  "linger ticksPerSecond ds =
    (if ds = [] then Inl IndexOutOfRange
     else let ds1 = ds[0 := quo 100 100]
          in case checked_quo 100 ticksPerSecond of
               Inl e \<Rightarrow> Inl e
             | Inr d \<Rightarrow> Inr (ds1[length ds1 - 1 := d * 10]))"

text \<open>What \<^verbatim>\<open>gif.EncodeAll\<close> is given.\<close>

record GIF =
  Image :: "frame option list"
  Delay :: "go_int list"

text \<open>
  \<^verbatim>\<open>func main()\<close>, from the validation of the flags to the call of the encoder, on the
  ticks that the JSON decoder returned.
\<close>

definition main :: "go_int \<Rightarrow> go_int \<Rightarrow> go_int \<Rightarrow> Tick list \<Rightarrow> (error + GIF) option" where
  "main threads ticksPerSecond imageSize ticks =
    (if threads <s 1 then Some (Inl (Fatal ''Threads must be greater than zero.''))
     else if 100 <s ticksPerSecond \<or> ticksPerSecond <s 1
       then Some (Inl (Fatal ''Speed must be between 1 and 100.''))
     else if imageSize <s 1 then Some (Inl (Fatal ''Image size must be greater than zero.''))
     else case ticks of
            [] \<Rightarrow> Some (Inl IndexOutOfRange)
          | t0 # _ \<Rightarrow>
              (case Tick_Bounds t0 of
                 Inl e \<Rightarrow> Some (Inl e)
               | Inr tickBounds \<Rightarrow>
                   (case main_loop imageSize ticksPerSecond
                           (NewPointTransformer tickBounds Padding imageSize) 0 ticks
                           \<lparr>drawn = replicate (length ticks) None,
                            delays = replicate (length ticks) 0\<rparr> of
                      None \<Rightarrow> None
                    | Some (Inl e) \<Rightarrow> Some (Inl e)
                    | Some (Inr bufs) \<Rightarrow>
                        (case linger ticksPerSecond (delays bufs) of
                           Inl e \<Rightarrow> Some (Inl e)
                         | Inr ds \<Rightarrow> Some (Inr \<lparr>Image = drawn bufs, Delay = ds\<rparr>)))))"

section \<open>Notions used in the statements\<close>

text \<open>The width and height of a box as integers, without wrap-around.\<close>

definition width :: "image_Rectangle \<Rightarrow> int" where
  "width r = sint (Point_X (Rect_Max r)) - sint (Point_X (Rect_Min r))"

definition height :: "image_Rectangle \<Rightarrow> int" where
  "height r = sint (Point_Y (Rect_Max r)) - sint (Point_Y (Rect_Min r))"

text \<open>A box whose minimum is not above its maximum, as every result of \<open>Tick_Bounds\<close> is.\<close>

definition well_formed :: "image_Rectangle \<Rightarrow> bool" where
  "well_formed r \<longleftrightarrow>
     Point_X (Rect_Min r) \<le>s Point_X (Rect_Max r) \<and> Point_Y (Rect_Min r) \<le>s Point_Y (Rect_Max r)"

text \<open>A point lies in a box, borders included.\<close>

definition inside :: "go_int \<Rightarrow> go_int \<Rightarrow> image_Rectangle \<Rightarrow> bool" where
  "inside x y r \<longleftrightarrow>
     Point_X (Rect_Min r) \<le>s x \<and> x \<le>s Point_X (Rect_Max r) \<and>
     Point_Y (Rect_Min r) \<le>s y \<and> y \<le>s Point_Y (Rect_Max r)"

text \<open>An integer that a Go \<^verbatim>\<open>int\<close> represents.\<close>

definition fits :: "int \<Rightarrow> bool" where
  "fits k \<longleftrightarrow> - (2 ^ 63) \<le> k \<and> k < 2 ^ 63"

text \<open>
  No addition or subtraction of \<open>NewPointTransformer bounds padding maxDim\<close> overflows:
  each intermediate result, computed in the integers, is representable. The steps are those
  of the function, in its order.
\<close>

definition no_overflow :: "image_Rectangle \<Rightarrow> go_int \<Rightarrow> bool" where
  "no_overflow bounds padding \<longleftrightarrow>
    (let minX = sint (Point_X (Rect_Min bounds)) - sint padding;
         minY = sint (Point_Y (Rect_Min bounds)) - sint padding;
         maxX = sint (Point_X (Rect_Max bounds)) + sint padding;
         maxY = sint (Point_Y (Rect_Max bounds)) + sint padding;
         xLength = maxX - minX;
         yLength = maxY - minY
     in fits minX \<and> fits minY \<and> fits maxX \<and> fits maxY \<and> fits xLength \<and> fits yLength \<and>
        (if yLength < xLength
         then fits (xLength - yLength) \<and>
              fits (minY - (xLength - yLength) div 2) \<and> fits (maxY + (xLength - yLength) div 2)
         else fits (yLength - xLength) \<and>
              fits (minX - (yLength - xLength) div 2) \<and> fits (maxX + (yLength - xLength) div 2)))"

text \<open>
  The shrink condition as the specification words it: both percentages, in truncating
  integer division, are at most \<open>ShrinkPercent\<close>.
\<close>

definition shrinks :: "image_Rectangle \<Rightarrow> PointTransformer \<Rightarrow> bool" where
  "shrinks tickBounds pt \<longleftrightarrow>
     quo ((Point_X (Rect_Max tickBounds) - Point_X (Rect_Min tickBounds)) * 100)
         (Point_X (Rect_Max (Bounds pt)) - Point_X (Rect_Min (Bounds pt))) \<le>s ShrinkPercent \<and>
     quo ((Point_Y (Rect_Max tickBounds) - Point_Y (Rect_Min tickBounds)) * 100)
         (Point_Y (Rect_Max (Bounds pt)) - Point_Y (Rect_Min (Bounds pt))) \<le>s ShrinkPercent"

text \<open>A bot that is alive and belongs to neither of the two supported players.\<close>

definition unsupported :: "Bot \<Rightarrow> bool" where
  "unsupported bt \<longleftrightarrow> \<not> Health bt \<le>s 0 \<and> PID bt \<noteq> 1 \<and> PID bt \<noteq> 2"

text \<open>The two grid loops of a tick drawn with \<open>pt\<close> end: neither bound is the largest \<^verbatim>\<open>int\<close>.\<close>

definition grid_ends :: "PointTransformer \<Rightarrow> bool" where
  "grid_ends pt \<longleftrightarrow>
     sint (Point_X (Rect_Max (Bounds pt))) < 2 ^ 63 - 1 \<and>
     sint (Point_Y (Rect_Max (Bounds pt))) < 2 ^ 63 - 1"

text \<open>
  A tick that the loop can render whatever came before it: it has bots, none of them
  unsupported, and the transformer built from its bounds is free of overflow and lets the
  grid loops end.
\<close>

definition renderable :: "go_int \<Rightarrow> Tick \<Rightarrow> bool" where
  "renderable imageSize t \<longleftrightarrow>
     (case Tick_Bounds t of
        Inl e \<Rightarrow> False
      | Inr tickBounds \<Rightarrow>
          no_overflow tickBounds Padding \<and>
          grid_ends (NewPointTransformer tickBounds Padding imageSize)) \<and>
     (\<forall>bt\<in>set (Bots t). \<not> unsupported bt)"

text \<open>The transformers the loop can hold while it renders such ticks.\<close>

definition good :: "go_int \<Rightarrow> PointTransformer \<Rightarrow> bool" where
  "good imageSize pt \<longleftrightarrow>
     (\<exists>tickBounds. well_formed tickBounds \<and> no_overflow tickBounds Padding \<and>
        pt = NewPointTransformer tickBounds Padding imageSize \<and> grid_ends pt)"

section \<open>Example inputs\<close>

text \<open>A bot of player \<open>pid\<close> at \<open>(x, y)\<close> with the given health, and a box by its corners.\<close>

definition mk_bot :: "go_int \<Rightarrow> go_int \<Rightarrow> go_int \<Rightarrow> go_int \<Rightarrow> Bot" where
  "mk_bot pid x y health =
     \<lparr>PID = pid, BID = 0, X = x, Y = y, TX = 0, TY = 0, Health = health, Fired = False,
      HitX = 0, HitY = 0, Scrap = 0, Shield = False, FPow = 4, MPow = 4, SPow = 4\<rparr>"

definition box :: "go_int \<Rightarrow> go_int \<Rightarrow> go_int \<Rightarrow> go_int \<Rightarrow> image_Rectangle" where
  "box x0 y0 x1 y1 =
     \<lparr>Rect_Min = \<lparr>Point_X = x0, Point_Y = y0\<rparr>, Rect_Max = \<lparr>Point_X = x1, Point_Y = y1\<rparr>\<rparr>"

text \<open>
  Four ticks of two bots along the X axis: the second stays within the first tick's
  transformer, the third leaves it on the right, the fourth is much narrower.
\<close>

definition four_ticks :: "Tick list" where
  "four_ticks =
     [\<lparr>Tick = 0, Bots = [mk_bot 1 0 0 12, mk_bot 2 800 0 12]\<rparr>,
      \<lparr>Tick = 1, Bots = [mk_bot 1 0 0 12, mk_bot 2 810 0 12]\<rparr>,
      \<lparr>Tick = 2, Bots = [mk_bot 1 0 0 12, mk_bot 2 900 0 12]\<rparr>,
      \<lparr>Tick = 3, Bots = [mk_bot 1 0 0 12, mk_bot 2 100 0 12]\<rparr>]"

section \<open>Auxiliary facts\<close>

subsection \<open>Folding minimum and maximum over the bots\<close>

lemma Bounds_body_sel:
  "sint (Point_X (Rect_Min (Bounds_body bt b))) = min (sint (X bt)) (sint (Point_X (Rect_Min b)))"
  "sint (Point_Y (Rect_Min (Bounds_body bt b))) = min (sint (Y bt)) (sint (Point_Y (Rect_Min b)))"
  "sint (Point_X (Rect_Max (Bounds_body bt b))) = max (sint (X bt)) (sint (Point_X (Rect_Max b)))"
  "sint (Point_Y (Rect_Max (Bounds_body bt b))) = max (sint (Y bt)) (sint (Point_Y (Rect_Max b)))"
  by (auto simp: Bounds_body_def Let_def word_sless_alt min_def max_def)

lemma Bounds_loop_sel:
  "sint (Point_X (Rect_Min (Bounds_loop bots b))) = fold (\<lambda>bt m. min (sint (X bt)) m) bots (sint (Point_X (Rect_Min b)))"
  "sint (Point_Y (Rect_Min (Bounds_loop bots b))) = fold (\<lambda>bt m. min (sint (Y bt)) m) bots (sint (Point_Y (Rect_Min b)))"
  "sint (Point_X (Rect_Max (Bounds_loop bots b))) = fold (\<lambda>bt m. max (sint (X bt)) m) bots (sint (Point_X (Rect_Max b)))"
  "sint (Point_Y (Rect_Max (Bounds_loop bots b))) = fold (\<lambda>bt m. max (sint (Y bt)) m) bots (sint (Point_Y (Rect_Max b)))"
  by (induction bots arbitrary: b; simp add: Bounds_body_sel)+

lemma fold_min_le: "fold (\<lambda>bt m. min (f bt) m) bots (a::int) \<le> a"
proof (induction bots arbitrary: a)
  case Nil show ?case by simp
next
  case (Cons x xs)
  from Cons[of "min (f x) a"] show ?case by simp
qed

lemma fold_min_lower: "bt \<in> set bots \<Longrightarrow> fold (\<lambda>bt m. min (f bt) m) bots (a::int) \<le> f bt"
  by (induction bots arbitrary: a) (auto intro: order_trans[OF fold_min_le])

lemma fold_min_attained: "fold (\<lambda>bt m. min (f bt) m) bots (a::int) = a \<or> (\<exists>bt\<in>set bots. fold (\<lambda>bt m. min (f bt) m) bots a = f bt)"
proof (induction bots arbitrary: a)
  case Nil show ?case by simp
next
  case (Cons x xs)
  from Cons[of "min (f x) a"] show ?case by (auto simp: min_def split: if_splits)
qed

lemma fold_max_ge: "a \<le> fold (\<lambda>bt m. max (f bt) m) bots (a::int)"
proof (induction bots arbitrary: a)
  case Nil show ?case by simp
next
  case (Cons x xs)
  from Cons[of "max (f x) a"] show ?case by simp
qed

lemma fold_max_upper: "bt \<in> set bots \<Longrightarrow> f bt \<le> fold (\<lambda>bt m. max (f bt) m) bots (a::int)"
  by (induction bots arbitrary: a) (auto intro: order_trans[OF _ fold_max_ge])

lemma fold_max_attained: "fold (\<lambda>bt m. max (f bt) m) bots (a::int) = a \<or> (\<exists>bt\<in>set bots. fold (\<lambda>bt m. max (f bt) m) bots a = f bt)"
proof (induction bots arbitrary: a)
  case Nil show ?case by simp
next
  case (Cons x xs)
  from Cons[of "max (f x) a"] show ?case by (auto simp: max_def split: if_splits)
qed

subsection \<open>Signed arithmetic without overflow\<close>

lemma fits_sint: "fits (sint (a::go_int))"
  using sint_ge[of a] sint_lt[of a] by (simp add: fits_def)

lemma sint_add_fits: "fits (sint a + sint b) \<Longrightarrow> sint (a + b :: go_int) = sint a + sint b"
  by (simp add: sint_word_ariths fits_def signed_take_bit_int_eq_self)

lemma sint_sub_fits: "fits (sint a - sint b) \<Longrightarrow> sint (a - b :: go_int) = sint a - sint b"
  by (simp add: sint_word_ariths fits_def signed_take_bit_int_eq_self)

lemma sint_quo_2: "0 \<le> sint a \<Longrightarrow> sint (quo a 2) = sint a div 2"
proof -
  assume h: "0 \<le> sint a"
  have f: "fits (sint a)" by (rule fits_sint)
  have "sint a sdiv 2 = sint a div 2" using h by (simp add: signed_divide_int_def sgn_if)
  moreover have "fits (sint a div 2)" using h f by (auto simp: fits_def)
  ultimately show ?thesis
    by (simp add: quo_def sint_sbintrunc' fits_def signed_take_bit_int_eq_self)
qed

lemma sless_iff: "(a::go_int) <s b \<longleftrightarrow> sint a < sint b" by (simp add: word_sless_alt)
lemma sle_iff: "(a::go_int) \<le>s b \<longleftrightarrow> sint a \<le> sint b" by (simp add: word_sle_eq)

text \<open>Coordinates of the stored box when nothing overflows.\<close>

lemma New_Bounds:
  fixes s :: go_int
  assumes "no_overflow b p"
  defines "x0 \<equiv> sint (Point_X (Rect_Min b)) - sint p"
      and "y0 \<equiv> sint (Point_Y (Rect_Min b)) - sint p"
      and "x1 \<equiv> sint (Point_X (Rect_Max b)) + sint p"
      and "y1 \<equiv> sint (Point_Y (Rect_Max b)) + sint p"
  defines "pt \<equiv> NewPointTransformer b p s"
  shows "sint (Point_X (Rect_Min (Bounds pt))) = (if y1 - y0 < x1 - x0 then x0 else x0 - ((y1 - y0) - (x1 - x0)) div 2)"
    and "sint (Point_X (Rect_Max (Bounds pt))) = (if y1 - y0 < x1 - x0 then x1 else x1 + ((y1 - y0) - (x1 - x0)) div 2)"
    and "sint (Point_Y (Rect_Min (Bounds pt))) = (if y1 - y0 < x1 - x0 then y0 - ((x1 - x0) - (y1 - y0)) div 2 else y0)"
    and "sint (Point_Y (Rect_Max (Bounds pt))) = (if y1 - y0 < x1 - x0 then y1 + ((x1 - x0) - (y1 - y0)) div 2 else y1)"
    and "ratio pt = float64 s / real_of_int (max (x1 - x0) (y1 - y0))"
proof -
  define minX where "minX = Point_X (Rect_Min b) - p"
  define minY where "minY = Point_Y (Rect_Min b) - p"
  define maxX where "maxX = Point_X (Rect_Max b) + p"
  define maxY where "maxY = Point_Y (Rect_Max b) + p"
  define xLength where "xLength = maxX - minX"
  define yLength where "yLength = maxY - minY"
  define ex where "ex = quo (xLength - yLength) 2"
  define ey where "ey = quo (yLength - xLength) 2"
  have pt: "pt = (if yLength <s xLength
      then \<lparr>Bounds = \<lparr>Rect_Min = \<lparr>Point_X = minX, Point_Y = minY - ex\<rparr>,
                       Rect_Max = \<lparr>Point_X = maxX, Point_Y = maxY + ex\<rparr>\<rparr>,
             ratio = float64 s / float64 xLength\<rparr>
      else \<lparr>Bounds = \<lparr>Rect_Min = \<lparr>Point_X = minX - ey, Point_Y = minY\<rparr>,
                       Rect_Max = \<lparr>Point_X = maxX + ey, Point_Y = maxY\<rparr>\<rparr>,
             ratio = float64 s / float64 yLength\<rparr>)"
    unfolding pt_def NewPointTransformer_def Let_def minX_def minY_def maxX_def maxY_def
      xLength_def yLength_def ex_def ey_def ..
  from assms(1) have f: "fits x0" "fits y0" "fits x1" "fits y1" "fits (x1 - x0)" "fits (y1 - y0)"
    and g: "y1 - y0 < x1 - x0 \<Longrightarrow> fits ((x1 - x0) - (y1 - y0)) \<and> fits (y0 - ((x1 - x0) - (y1 - y0)) div 2) \<and> fits (y1 + ((x1 - x0) - (y1 - y0)) div 2)"
    and h: "\<not> y1 - y0 < x1 - x0 \<Longrightarrow> fits ((y1 - y0) - (x1 - x0)) \<and> fits (x0 - ((y1 - y0) - (x1 - x0)) div 2) \<and> fits (x1 + ((y1 - y0) - (x1 - x0)) div 2)"
    by (simp_all add: no_overflow_def Let_def x0_def y0_def x1_def y1_def split: if_splits)
  have c: "sint minX = x0" "sint minY = y0" "sint maxX = x1" "sint maxY = y1"
    using f by (simp_all add: x0_def y0_def x1_def y1_def minX_def minY_def maxX_def maxY_def
         sint_add_fits sint_sub_fits)
  have l: "sint xLength = x1 - x0" "sint yLength = y1 - y0"
    using f c by (simp_all add: xLength_def yLength_def sint_sub_fits)
  have br: "yLength <s xLength \<longleftrightarrow> y1 - y0 < x1 - x0"
    by (simp add: sless_iff l)
  have ex: "y1 - y0 < x1 - x0 \<Longrightarrow> sint ex = ((x1 - x0) - (y1 - y0)) div 2"
  proof -
    assume a: "y1 - y0 < x1 - x0"
    with g l have "sint (xLength - yLength) = (x1 - x0) - (y1 - y0)" by (simp add: sint_sub_fits)
    with a show ?thesis by (simp add: ex_def sint_quo_2)
  qed
  have ey: "\<not> y1 - y0 < x1 - x0 \<Longrightarrow> sint ey = ((y1 - y0) - (x1 - x0)) div 2"
  proof -
    assume a: "\<not> y1 - y0 < x1 - x0"
    with h l have "sint (yLength - xLength) = (y1 - y0) - (x1 - x0)" by (simp add: sint_sub_fits)
    with a show ?thesis by (simp add: ey_def sint_quo_2)
  qed
  show "sint (Point_X (Rect_Min (Bounds pt))) = (if y1 - y0 < x1 - x0 then x0 else x0 - ((y1 - y0) - (x1 - x0)) div 2)"
    using br c ey h by (simp add: pt sint_sub_fits)
  show "sint (Point_X (Rect_Max (Bounds pt))) = (if y1 - y0 < x1 - x0 then x1 else x1 + ((y1 - y0) - (x1 - x0)) div 2)"
    using br c ey h by (simp add: pt sint_add_fits)
  show "sint (Point_Y (Rect_Min (Bounds pt))) = (if y1 - y0 < x1 - x0 then y0 - ((x1 - x0) - (y1 - y0)) div 2 else y0)"
    using br c ex g by (simp add: pt sint_sub_fits)
  show "sint (Point_Y (Rect_Max (Bounds pt))) = (if y1 - y0 < x1 - x0 then y1 + ((x1 - x0) - (y1 - y0)) div 2 else y1)"
    using br c ex g by (simp add: pt sint_add_fits)
  show "ratio pt = float64 s / real_of_int (max (x1 - x0) (y1 - y0))"
    using br l by (simp add: pt float64_def max_def)
qed

subsection \<open>Bounds of a tick\<close>

lemma Tick_Bounds_Inr:
  "Bots t \<noteq> [] \<Longrightarrow> \<exists>r. Tick_Bounds t = Inr r"
  by (cases "Bots t") (simp_all add: Tick_Bounds_def)

lemma Tick_Bounds_empty: "Bots t = [] \<Longrightarrow> Tick_Bounds t = Inl IndexOutOfRange"
  by (simp add: Tick_Bounds_def)

lemma Tick_Bounds_props:
  assumes "Tick_Bounds t = Inr r"
  shows "\<forall>bt\<in>set (Bots t). Point_X (Rect_Min r) \<le>s X bt \<and> X bt \<le>s Point_X (Rect_Max r) \<and>
                            Point_Y (Rect_Min r) \<le>s Y bt \<and> Y bt \<le>s Point_Y (Rect_Max r)"
    and "\<exists>bt\<in>set (Bots t). X bt = Point_X (Rect_Min r)"
    and "\<exists>bt\<in>set (Bots t). X bt = Point_X (Rect_Max r)"
    and "\<exists>bt\<in>set (Bots t). Y bt = Point_Y (Rect_Min r)"
    and "\<exists>bt\<in>set (Bots t). Y bt = Point_Y (Rect_Max r)"
proof -
  from assms obtain b0 bs where bots: "Bots t = b0 # bs"
    by (cases "Bots t") (simp_all add: Tick_Bounds_def)
  define init where "init = \<lparr>Rect_Min = \<lparr>Point_X = X b0, Point_Y = Y b0\<rparr>,
                Rect_Max = \<lparr>Point_X = X b0, Point_Y = Y b0\<rparr>\<rparr>"
  from assms bots have r: "r = Bounds_loop (Bots t) init"
    by (simp add: Tick_Bounds_def init_def)
  have i: "sint (Point_X (Rect_Min init)) = sint (X b0)" "sint (Point_Y (Rect_Min init)) = sint (Y b0)"
     "sint (Point_X (Rect_Max init)) = sint (X b0)" "sint (Point_Y (Rect_Max init)) = sint (Y b0)"
    by (simp_all add: init_def)
  have b0: "b0 \<in> set (Bots t)" using bots by simp
  show "\<forall>bt\<in>set (Bots t). Point_X (Rect_Min r) \<le>s X bt \<and> X bt \<le>s Point_X (Rect_Max r) \<and>
                            Point_Y (Rect_Min r) \<le>s Y bt \<and> Y bt \<le>s Point_Y (Rect_Max r)"
    using fold_min_lower[where f="\<lambda>bt. sint (X bt)" and bots="Bots t"]
          fold_min_lower[where f="\<lambda>bt. sint (Y bt)" and bots="Bots t"]
          fold_max_upper[where f="\<lambda>bt. sint (X bt)" and bots="Bots t"]
          fold_max_upper[where f="\<lambda>bt. sint (Y bt)" and bots="Bots t"]
    by (simp add: r sle_iff Bounds_loop_sel)
  have "\<exists>bt\<in>set (Bots t). sint (X bt) = sint (Point_X (Rect_Min r))"
    using fold_min_attained[of "\<lambda>bt. sint (X bt)" "Bots t" "sint (X b0)"] b0
    unfolding r by (auto simp: Bounds_loop_sel(1) i)
  then show "\<exists>bt\<in>set (Bots t). X bt = Point_X (Rect_Min r)"
    by (auto intro: signed_word_eqI)
  have "\<exists>bt\<in>set (Bots t). sint (X bt) = sint (Point_X (Rect_Max r))"
    using fold_max_attained[of "\<lambda>bt. sint (X bt)" "Bots t" "sint (X b0)"] b0
    unfolding r by (auto simp: Bounds_loop_sel(3) i)
  then show "\<exists>bt\<in>set (Bots t). X bt = Point_X (Rect_Max r)"
    by (auto intro: signed_word_eqI)
  have "\<exists>bt\<in>set (Bots t). sint (Y bt) = sint (Point_Y (Rect_Min r))"
    using fold_min_attained[of "\<lambda>bt. sint (Y bt)" "Bots t" "sint (Y b0)"] b0
    unfolding r by (auto simp: Bounds_loop_sel(2) i)
  then show "\<exists>bt\<in>set (Bots t). Y bt = Point_Y (Rect_Min r)"
    by (auto intro: signed_word_eqI)
  have "\<exists>bt\<in>set (Bots t). sint (Y bt) = sint (Point_Y (Rect_Max r))"
    using fold_max_attained[of "\<lambda>bt. sint (Y bt)" "Bots t" "sint (Y b0)"] b0
    unfolding r by (auto simp: Bounds_loop_sel(4) i)
  then show "\<exists>bt\<in>set (Bots t). Y bt = Point_Y (Rect_Max r)"
    by (auto intro: signed_word_eqI)
qed

subsection \<open>Extent of the stored box\<close>

lemma width_New:
  assumes "no_overflow b p"
  shows "width (Bounds (NewPointTransformer b p s)) =
           (if height b < width b then width b + 2 * sint p
            else width b + 2 * sint p + 2 * ((height b - width b) div 2))"
    and "height (Bounds (NewPointTransformer b p s)) =
           (if height b < width b then height b + 2 * sint p + 2 * ((width b - height b) div 2)
            else height b + 2 * sint p)"
  unfolding width_def height_def New_Bounds[OF assms] by (simp_all add: algebra_simps)

lemma well_formed_extent: "well_formed b \<longleftrightarrow> 0 \<le> width b \<and> 0 \<le> height b"
  by (auto simp: well_formed_def width_def height_def sle_iff)

lemma Tick_Bounds_well_formed: "Tick_Bounds t = Inr r \<Longrightarrow> well_formed r"
proof -
  assume r: "Tick_Bounds t = Inr r"
  from Tick_Bounds_props(2)[OF r] obtain bt where "bt \<in> set (Bots t)" by blast
  with Tick_Bounds_props(1)[OF r] show ?thesis
    by (auto simp: well_formed_def sle_iff intro: order_trans)
qed

lemma New_extent_ge:
  assumes "well_formed b" "no_overflow b p" "0 \<le> sint p"
  shows "2 * sint p \<le> width (Bounds (NewPointTransformer b p s))"
    and "2 * sint p \<le> height (Bounds (NewPointTransformer b p s))"
  using assms(1,3) unfolding width_New[OF assms(2)] well_formed_extent
  by presburger+

lemma sint_width_New:
  assumes "no_overflow b p"
  shows "sint (Point_X (Rect_Max (Bounds (NewPointTransformer b p s)))
              - Point_X (Rect_Min (Bounds (NewPointTransformer b p s))))
           = width (Bounds (NewPointTransformer b p s))"
    and "sint (Point_Y (Rect_Max (Bounds (NewPointTransformer b p s)))
              - Point_Y (Rect_Min (Bounds (NewPointTransformer b p s))))
           = height (Bounds (NewPointTransformer b p s))"
proof -
  from assms have f: "fits (width b + 2 * sint p)" "fits (height b + 2 * sint p)"
    by (simp_all add: no_overflow_def Let_def width_def height_def algebra_simps)
  have "fits (width (Bounds (NewPointTransformer b p s)))"
    using f unfolding width_New[OF assms] fits_def by presburger
  then show "sint (Point_X (Rect_Max (Bounds (NewPointTransformer b p s)))
              - Point_X (Rect_Min (Bounds (NewPointTransformer b p s))))
           = width (Bounds (NewPointTransformer b p s))"
    unfolding width_def by (rule sint_sub_fits)
  have "fits (height (Bounds (NewPointTransformer b p s)))"
    using f unfolding width_New[OF assms] fits_def by presburger
  then show "sint (Point_Y (Rect_Max (Bounds (NewPointTransformer b p s)))
              - Point_Y (Rect_Min (Bounds (NewPointTransformer b p s))))
           = height (Bounds (NewPointTransformer b p s))"
    unfolding height_def by (rule sint_sub_fits)
qed

lemma shrink_check_Inr:
  assumes "Point_X (Rect_Max (Bounds pt)) - Point_X (Rect_Min (Bounds pt)) \<noteq> 0"
      and "Point_Y (Rect_Max (Bounds pt)) - Point_Y (Rect_Min (Bounds pt)) \<noteq> 0"
  shows "shrink_check tb pt = Inr (shrinks tb pt)"
  using assms by (auto simp: shrink_check_def shrinks_def checked_quo_def Let_def)

lemma scale_in_range:
  fixes n s L :: real
  assumes "0 \<le> s" "0 \<le> n" "n \<le> L" "0 < L"
  shows "0 \<le> n * (s / L)" "n * (s / L) \<le> s"
proof -
  show "0 \<le> n * (s / L)" using assms by simp
  have "n * s \<le> L * s" using assms by (simp add: mult_right_mono)
  then show "n * (s / L) \<le> s" using assms by (simp add: field_simps)
qed

lemma New_ratio:
  assumes "no_overflow b p"
  shows "ratio (NewPointTransformer b p s) =
     float64 s / real_of_int (max (width (Bounds (NewPointTransformer b p s))) (height (Bounds (NewPointTransformer b p s))))"
proof -
  have "max (width (Bounds (NewPointTransformer b p s))) (height (Bounds (NewPointTransformer b p s)))
      = max (width b + 2 * sint p) (height b + 2 * sint p)"
    unfolding width_New[OF assms] by (cases "height b < width b") presburger+
  then show ?thesis
    unfolding New_Bounds(5)[OF assms] width_def height_def by (simp add: algebra_simps)
qed

lemma sint_offset:
  fixes x m :: go_int
  assumes "sint m \<le> sint x" "sint x - sint m \<le> k" "fits k"
  shows "sint (x + (- 1) * m) = sint x - sint m"
proof -
  have "fits (sint x - sint m)" using assms by (simp add: fits_def)
  then have "sint (x - m) = sint x - sint m" by (rule sint_sub_fits)
  then show ?thesis by simp
qed

subsection \<open>The grid loops end\<close>

lemma sint_succ: "sint (x::go_int) < 2 ^ 63 - 1 \<Longrightarrow> sint (x + 1) = sint x + 1"
  using sint_add_fits[of x 1] sint_ge[of x] by (simp add: fits_def)

lemma grid_x_Some:
  assumes "sint (Point_X (Rect_Max (Bounds pt))) < 2 ^ 63 - 1"
  shows "\<exists>r. grid_x pt x ops = Some r"
proof (induction "nat (sint (Point_X (Rect_Max (Bounds pt))) + 1 - sint x)" arbitrary: x ops)
  case 0
  then have "\<not> x \<le>s Point_X (Rect_Max (Bounds pt))" by (simp add: sle_iff)
  then show ?case by (subst grid_x.simps) simp
next
  case (Suc n)
  then have le: "x \<le>s Point_X (Rect_Max (Bounds pt))" by (simp add: sle_iff)
  with assms have "sint x < 2 ^ 63 - 1" by (simp add: sle_iff)
  then have "sint (x + 1) = sint x + 1" by (rule sint_succ)
  with Suc(2) have "n = nat (sint (Point_X (Rect_Max (Bounds pt))) + 1 - sint (x + 1))" by simp
  from Suc(1)[OF this] le show ?case by (subst grid_x.simps) simp
qed

lemma grid_y_Some:
  assumes "sint (Point_Y (Rect_Max (Bounds pt))) < 2 ^ 63 - 1"
  shows "\<exists>r. grid_y pt y ops = Some r"
proof (induction "nat (sint (Point_Y (Rect_Max (Bounds pt))) + 1 - sint y)" arbitrary: y ops)
  case 0
  then have "\<not> y \<le>s Point_Y (Rect_Max (Bounds pt))" by (simp add: sle_iff)
  then show ?case by (subst grid_y.simps) simp
next
  case (Suc n)
  then have le: "y \<le>s Point_Y (Rect_Max (Bounds pt))" by (simp add: sle_iff)
  with assms have "sint y < 2 ^ 63 - 1" by (simp add: sle_iff)
  then have "sint (y + 1) = sint y + 1" by (rule sint_succ)
  with Suc(2) have "n = nat (sint (Point_Y (Rect_Max (Bounds pt))) + 1 - sint (y + 1))" by simp
  from Suc(1)[OF this] le show ?case by (subst grid_y.simps) simp
qed

subsection \<open>Drawing the bots\<close>



lemma draw_bodies_Inr:
  "\<forall>bt\<in>set bots. \<not> unsupported bt \<Longrightarrow> \<exists>ops. draw_bodies pt bots = Inr ops"
proof (induction bots)
  case Nil then show ?case by simp
next
  case (Cons a bots)
  then obtain rest where rest: "draw_bodies pt bots = Inr rest" by auto
  show ?case
  proof (cases "Health a \<le>s 0")
    case True
    with rest show ?thesis by simp
  next
    case False
    with Cons(2) have "PID a = 1 \<or> PID a = 2" by (auto simp: unsupported_def)
    then obtain ops where "draw_body pt a = Inr ops" by (auto simp: draw_body_def Let_def)
    with False rest show ?thesis by simp
  qed
qed

lemma render_tick_Inr_transformer: "render_tick pt t = Some (Inr f) \<Longrightarrow> transformer f = pt"
  by (auto simp: render_tick_def Let_def split: option.splits sum.splits)


lemma render_tick_returns:
  assumes "grid_ends pt"
  shows "\<exists>gy. render_tick pt t =
      Some (case draw_bodies pt (Bots t) of Inl e \<Rightarrow> Inl e
            | Inr bodies \<Rightarrow> Inr \<lparr>transformer = pt,
                 drawing = (gy @ logo pt @ draw_shots pt (Bots t) @ draw_explosions pt (Bots t)) @ bodies\<rparr>)"
proof -
  from assms obtain gx where gx: "grid_x pt (Point_X (Rect_Min (Bounds pt))) [] = Some gx"
    using grid_x_Some[of pt] by (auto simp: grid_ends_def)
  from assms obtain gy where gy: "grid_y pt (Point_Y (Rect_Min (Bounds pt))) gx = Some gy"
    using grid_y_Some[of pt] by (auto simp: grid_ends_def)
  show ?thesis by (rule exI[of _ gy]) (simp add: render_tick_def gx gy Let_def split: sum.splits)
qed

subsection \<open>The viewport policy\<close>

lemma shrink_check_InrD: "shrink_check tb pt = Inr b \<Longrightarrow> b = shrinks tb pt"
  by (auto simp: shrink_check_def shrinks_def checked_quo_def Let_def split: if_splits sum.splits)

lemma next_transformer_InrD:
  assumes "next_transformer s pt tb = Inr pt'"
  shows "pt' = (if overflows tb pt \<or> shrinks tb pt then NewPointTransformer tb Padding s else pt)"
proof (cases "overflows tb pt")
  case True
  with assms show ?thesis by (auto simp: next_transformer_def Let_def split: sum.splits if_splits)
next
  case False
  with assms obtain b where "shrink_check tb pt = Inr b" "pt' = (if b then NewPointTransformer tb Padding s else pt)"
    by (auto simp: next_transformer_def Let_def split: sum.splits)
  with shrink_check_InrD[of tb pt b] False show ?thesis by simp
qed

lemma good_nonzero:
  assumes "good s pt"
  shows "Point_X (Rect_Max (Bounds pt)) - Point_X (Rect_Min (Bounds pt)) \<noteq> 0"
    and "Point_Y (Rect_Max (Bounds pt)) - Point_Y (Rect_Min (Bounds pt)) \<noteq> 0"
proof -
  from assms obtain tb where tb: "well_formed tb" "no_overflow tb Padding"
     "pt = NewPointTransformer tb Padding s" by (auto simp: good_def)
  have p: "sint Padding = 120" by (simp add: Padding_def BotSize_def)
  from New_extent_ge[OF tb(1,2), of s] p tb(3)
  have w: "240 \<le> width (Bounds pt)" and h: "240 \<le> height (Bounds pt)" by simp_all
  show "Point_X (Rect_Max (Bounds pt)) - Point_X (Rect_Min (Bounds pt)) \<noteq> 0"
       "Point_Y (Rect_Max (Bounds pt)) - Point_Y (Rect_Min (Bounds pt)) \<noteq> 0"
    using sint_width_New[OF tb(2), of s] w h tb(3) by auto
qed

lemma next_transformer_good:
  assumes "good s pt" "Tick_Bounds t = Inr tb" "renderable s t"
  shows "\<exists>pt'. next_transformer s pt tb = Inr pt' \<and> good s pt'"
proof -
  from assms(2,3) have n: "good s (NewPointTransformer tb Padding s)"
    by (auto simp: good_def renderable_def dest: Tick_Bounds_well_formed)
  define pt1 where "pt1 = (if overflows tb pt then NewPointTransformer tb Padding s else pt)"
  have g1: "good s pt1" using n assms(1) by (simp add: pt1_def)
  from shrink_check_Inr[OF good_nonzero[OF g1]]
  have "next_transformer s pt tb = Inr (if shrinks tb pt1 then NewPointTransformer tb Padding s else pt1)"
    by (simp add: next_transformer_def Let_def pt1_def)
  with g1 n show ?thesis by auto
qed

subsection \<open>The main loop\<close>

lemma main_loop_ConsE:
  assumes "main_loop s v pt i (tick # ticks) bufs = Some (Inr bufs')"
  obtains tb pt' img d where "Tick_Bounds tick = Inr tb" "next_transformer s pt tb = Inr pt'"
    "render_tick pt' tick = Some (Inr img)" "checked_quo 100 v = Inr d"
    "main_loop s v pt' (Suc i) ticks
        (bufs\<lparr>drawn := (drawn bufs)[i := Some img], delays := (delays bufs)[i := d]\<rparr>) = Some (Inr bufs')"
  using assms by (auto split: sum.splits option.splits)

lemma main_loop_length:
  "main_loop s v pt i ticks bufs = Some (Inr bufs') \<Longrightarrow>
     length (drawn bufs') = length (drawn bufs) \<and> length (delays bufs') = length (delays bufs)"
proof (induction ticks arbitrary: pt i bufs)
  case Nil then show ?case by simp
next
  case (Cons tick ticks)
  from Cons(2) show ?case
    by (rule main_loop_ConsE) (use Cons(1) in fastforce)
qed

lemma main_loop_below:
  "main_loop s v pt i ticks bufs = Some (Inr bufs') \<Longrightarrow> j < i \<Longrightarrow>
     drawn bufs' ! j = drawn bufs ! j \<and> delays bufs' ! j = delays bufs ! j"
proof (induction ticks arbitrary: pt i bufs)
  case Nil then show ?case by simp
next
  case (Cons tick ticks)
  from Cons(2) show ?case
  proof (rule main_loop_ConsE)
    fix tb pt' img d
    assume "main_loop s v pt' (Suc i) ticks
        (bufs\<lparr>drawn := (drawn bufs)[i := Some img], delays := (delays bufs)[i := d]\<rparr>) = Some (Inr bufs')"
    from Cons(1)[OF this] Cons(3) show ?thesis by simp
  qed
qed

lemma main_loop_slots:
  "main_loop s v pt i ticks bufs = Some (Inr bufs') \<Longrightarrow>
   i + length ticks \<le> length (drawn bufs) \<Longrightarrow> i + length ticks \<le> length (delays bufs) \<Longrightarrow>
   k < length ticks \<Longrightarrow>
   \<exists>tb f. Tick_Bounds (ticks ! k) = Inr tb \<and> drawn bufs' ! (i + k) = Some f \<and>
          render_tick (transformer f) (ticks ! k) = Some (Inr f) \<and>
          checked_quo 100 v = Inr (delays bufs' ! (i + k)) \<and>
          next_transformer s (if k = 0 then pt else transformer (the (drawn bufs' ! (i + k - 1)))) tb
             = Inr (transformer f)"
proof (induction ticks arbitrary: pt i bufs k)
  case Nil then show ?case by simp
next
  case (Cons tick ticks)
  from Cons(2) show ?case
  proof (rule main_loop_ConsE)
    fix tb pt' img d
    assume tb: "Tick_Bounds tick = Inr tb" and nt: "next_transformer s pt tb = Inr pt'"
      and rt: "render_tick pt' tick = Some (Inr img)" and d: "checked_quo 100 v = Inr d"
      and rec: "main_loop s v pt' (Suc i) ticks
        (bufs\<lparr>drawn := (drawn bufs)[i := Some img], delays := (delays bufs)[i := d]\<rparr>) = Some (Inr bufs')"
    have tr: "transformer img = pt'" using rt by (rule render_tick_Inr_transformer)
    from main_loop_below[OF rec, of i] Cons(3,4)
    have at_i: "drawn bufs' ! i = Some img" "delays bufs' ! i = d" by simp_all
    show ?thesis
    proof (cases k)
      case 0
      with tb nt rt d tr at_i show ?thesis by simp
    next
      case (Suc k')
      with Cons(5) have k': "k' < length ticks" by simp
      from Cons(1)[OF rec _ _ k'] Cons(3,4)
      obtain tb' f where f: "Tick_Bounds (ticks ! k') = Inr tb'" "drawn bufs' ! (Suc i + k') = Some f"
          "render_tick (transformer f) (ticks ! k') = Some (Inr f)"
          "checked_quo 100 v = Inr (delays bufs' ! (Suc i + k'))"
          "next_transformer s (if k' = 0 then pt' else transformer (the (drawn bufs' ! (Suc i + k' - 1)))) tb'
             = Inr (transformer f)"
        by auto
      have "(if k' = 0 then pt' else transformer (the (drawn bufs' ! (Suc i + k' - 1))))
              = transformer (the (drawn bufs' ! (i + k - 1)))"
        using Suc at_i tr by (cases k') simp_all
      with f Suc show ?thesis by simp
    qed
  qed
qed

lemma main_loop_returns:
  "good s pt \<Longrightarrow> \<forall>t\<in>set ticks. renderable s t \<Longrightarrow> v \<noteq> 0 \<Longrightarrow>
     \<exists>bufs'. main_loop s v pt i ticks bufs = Some (Inr bufs')"
proof (induction ticks arbitrary: pt i bufs)
  case Nil then show ?case by simp
next
  case (Cons tick ticks)
  from Cons(3) have r: "renderable s tick" by simp
  then obtain tb where tb: "Tick_Bounds tick = Inr tb"
    by (auto simp: renderable_def split: sum.splits)
  from next_transformer_good[OF Cons(2) tb r] obtain pt' where
    pt': "next_transformer s pt tb = Inr pt'" "good s pt'" by blast
  from pt'(2) have "grid_ends pt'" by (auto simp: good_def)
  from render_tick_returns[OF this, of tick] draw_bodies_Inr[of "Bots tick" pt'] r
  obtain img where img: "render_tick pt' tick = Some (Inr img)"
    by (auto simp: renderable_def)
  from Cons(1)[OF pt'(2), of "Suc i"] Cons(3,4)
  show ?case by (simp add: tb pt' img checked_quo_def)
qed

subsection \<open>Runs of \<open>main\<close>\<close>

lemma main_InrE:
  assumes "main th v s ticks = Some (Inr gif)"
  obtains t0 rest tb0 bufs where "ticks = t0 # rest" "Tick_Bounds t0 = Inr tb0"
    "main_loop s v (NewPointTransformer tb0 Padding s) 0 ticks
       \<lparr>drawn = replicate (length ticks) None, delays = replicate (length ticks) 0\<rparr> = Some (Inr bufs)"
    "linger v (delays bufs) = Inr (Delay gif)" "Image gif = drawn bufs"
  using assms
  by (auto simp: main_def split: if_splits list.splits sum.splits option.splits)

lemma main_loop_delays:
  assumes "main_loop s v pt 0 ticks bufs = Some (Inr bufs')"
      and "length (drawn bufs) = length ticks" "length (delays bufs) = length ticks"
  shows "delays bufs' = replicate (length ticks) (quo 100 v)"
proof (rule nth_equalityI)
  show "length (delays bufs') = length (replicate (length ticks) (quo 100 v))"
    using main_loop_length[OF assms(1)] assms(3) by simp
next
  fix k assume "k < length (delays bufs')"
  then have k: "k < length ticks" using main_loop_length[OF assms(1)] assms(3) by simp
  from main_loop_slots[OF assms(1) _ _ k] assms(2,3)
  have "checked_quo 100 v = Inr (delays bufs' ! k)" by auto
  then have "delays bufs' ! k = quo 100 v" by (auto simp: checked_quo_def split: if_splits)
  with k show "delays bufs' ! k = replicate (length ticks) (quo 100 v) ! k" by simp
qed

lemma linger_replicate:
  assumes "linger v (replicate n q) = Inr ds"
  shows "n = 1 \<longrightarrow> ds = [quo 100 v * 10]"
    and "2 \<le> n \<longrightarrow> ds = 1 # replicate (n - 2) q @ [quo 100 v * 10]"
proof -
  have one: "quo 100 100 = 1" by (simp add: quo_def signed_divide_int_def)
  from assms have n: "n \<noteq> 0" and v: "v \<noteq> 0"
    and ds: "ds = ((replicate n q)[0 := 1])[n - 1 := quo 100 v * 10]"
    by (auto simp: linger_def checked_quo_def Let_def one split: if_splits)
  show "n = 1 \<longrightarrow> ds = [quo 100 v * 10]" using ds by simp
  show "2 \<le> n \<longrightarrow> ds = 1 # replicate (n - 2) q @ [quo 100 v * 10]"
  proof
    assume "2 \<le> n"
    then obtain m where m: "n = Suc (Suc m)" by (metis Suc_le_D numeral_2_eq_2 Suc_le_mono)
    have "replicate n q = q # replicate m q @ [q]"
      unfolding m by (simp add: replicate_append_same)
    then have "ds = (1 # replicate m q @ [q])[Suc m := quo 100 v * 10]"
      using ds m by simp
    also have "\<dots> = 1 # (replicate m q @ [q])[length (replicate m q) := quo 100 v * 10]" by simp
    also have "\<dots> = 1 # replicate m q @ [quo 100 v * 10]" by (simp only: list_update_length)
    finally show "ds = 1 # replicate (n - 2) q @ [quo 100 v * 10]" using m by simp
  qed
qed

lemma main_delays:
  assumes "main th v s ticks = Some (Inr gif)"
  shows "length ticks = 1 \<longrightarrow> Delay gif = [quo 100 v * 10]"
    and "2 \<le> length ticks \<longrightarrow>
           Delay gif = 1 # replicate (length ticks - 2) (quo 100 v) @ [quo 100 v * 10]"
proof -
  from assms obtain t0 :: Tick and rest :: "Tick list" and tb0 bufs where
    l: "main_loop s v (NewPointTransformer tb0 Padding s) 0 ticks
       \<lparr>drawn = replicate (length ticks) None, delays = replicate (length ticks) 0\<rparr> = Some (Inr bufs)"
    and d: "linger v (delays bufs) = Inr (Delay gif)"
    by (rule main_InrE)
  from main_loop_delays[OF l] have "delays bufs = replicate (length ticks) (quo 100 v)" by simp
  with d have "linger v (replicate (length ticks) (quo 100 v)) = Inr (Delay gif)" by simp
  from linger_replicate[OF this]
  show "length ticks = 1 \<longrightarrow> Delay gif = [quo 100 v * 10]"
   and "2 \<le> length ticks \<longrightarrow>
           Delay gif = 1 # replicate (length ticks - 2) (quo 100 v) @ [quo 100 v * 10]" by blast+
qed

lemma main_speed:
  assumes "main th v s ticks = Some (Inr gif)"
  shows "1 \<le> sint v \<and> sint v \<le> 100"
  using assms by (auto simp: main_def sless_iff split: if_splits)

lemma sint_delay:
  assumes "1 \<le> sint (v::go_int)" "sint v \<le> 100"
  shows "sint (quo 100 v) = 100 div sint v" and "sint (quo 100 v * 10) = 100 div sint v * 10"
proof -
  have q: "(100::int) sdiv sint v = 100 div sint v"
    using assms by (simp add: signed_divide_int_def sgn_if)
  have b: "0 \<le> 100 div sint v" "100 div sint v \<le> 100"
    using assms zdiv_mono2[of 100 1 "sint v"] by (simp_all add: pos_imp_zdiv_nonneg_iff)
  then show s: "sint (quo 100 v) = 100 div sint v"
    by (simp add: quo_def q sint_sbintrunc' signed_take_bit_int_eq_self)
  have "sint (quo 100 v * 10) = signed_take_bit 63 (sint (quo 100 v) * sint (10::go_int))"
    by (simp add: sint_word_ariths)
  also have "\<dots> = 100 div sint v * 10" using b by (simp add: s signed_take_bit_int_eq_self)
  finally show "sint (quo 100 v * 10) = 100 div sint v * 10" .
qed

lemma main_frames:
  assumes "main th v s ticks = Some (Inr gif)" and "i < length ticks"
  shows "\<exists>tb f. Tick_Bounds (ticks ! i) = Inr tb \<and> Image gif ! i = Some f \<and>
           render_tick (transformer f) (ticks ! i) = Some (Inr f) \<and>
           transformer f =
             (if i = 0 \<or> overflows tb (transformer (the (Image gif ! (i - 1))))
                       \<or> shrinks tb (transformer (the (Image gif ! (i - 1))))
              then NewPointTransformer tb Padding s
              else transformer (the (Image gif ! (i - 1))))"
proof -
  from assms(1) obtain t0 rest tb0 bufs where t0: "ticks = t0 # rest" "Tick_Bounds t0 = Inr tb0"
    and l: "main_loop s v (NewPointTransformer tb0 Padding s) 0 ticks
       \<lparr>drawn = replicate (length ticks) None, delays = replicate (length ticks) 0\<rparr> = Some (Inr bufs)"
    and im: "Image gif = drawn bufs"
    by (rule main_InrE)
  from main_loop_slots[OF l _ _ assms(2)]
  obtain tb f where f: "Tick_Bounds (ticks ! i) = Inr tb" "drawn bufs ! i = Some f"
     "render_tick (transformer f) (ticks ! i) = Some (Inr f)"
     "next_transformer s (if i = 0 then NewPointTransformer tb0 Padding s
                          else transformer (the (drawn bufs ! (0 + i - 1)))) tb = Inr (transformer f)"
    by auto
  have "transformer f =
             (if i = 0 \<or> overflows tb (transformer (the (drawn bufs ! (i - 1))))
                       \<or> shrinks tb (transformer (the (drawn bufs ! (i - 1))))
              then NewPointTransformer tb Padding s
              else transformer (the (drawn bufs ! (i - 1))))"
  proof (cases "i = 0")
    case True
    with f(1) t0 have "tb = tb0" by simp
    with next_transformer_InrD[OF f(4)] True show ?thesis by simp
  next
    case False
    with next_transformer_InrD[OF f(4)] show ?thesis by simp
  qed
  with f im show ?thesis by simp
qed

lemma main_returns:
  assumes "1 \<le>s th" "1 \<le>s v" "v \<le>s 100" "1 \<le>s s" "ticks \<noteq> []" "\<forall>t\<in>set ticks. renderable s t"
  shows "\<exists>gif. main th v s ticks = Some (Inr gif)"
proof -
  from assms(5) obtain t0 rest where t0: "ticks = t0 # rest" by (cases ticks) auto
  with assms(6) have r0: "renderable s t0" by simp
  then obtain tb0 where tb0: "Tick_Bounds t0 = Inr tb0"
    by (auto simp: renderable_def split: sum.splits)
  with r0 have g: "good s (NewPointTransformer tb0 Padding s)"
    by (auto simp: good_def renderable_def dest: Tick_Bounds_well_formed)
  from assms(2) have v: "v \<noteq> 0" by (auto simp: sle_iff)
  from main_loop_returns[OF g assms(6) v] obtain bufs where
    l: "main_loop s v (NewPointTransformer tb0 Padding s) 0 ticks
       \<lparr>drawn = replicate (length ticks) None, delays = replicate (length ticks) 0\<rparr> = Some (Inr bufs)"
    by blast
  from main_loop_length[OF l] t0 have "delays bufs \<noteq> []" by auto
  with v obtain ds where "linger v (delays bufs) = Inr ds"
    by (auto simp: linger_def checked_quo_def Let_def)
  with l tb0 t0 assms(1-4) show ?thesis
    by (auto simp: main_def sle_iff sless_iff)
qed


subsection \<open>Evaluation of concrete inputs\<close>

lemmas eval =
  Tick_Bounds_def mk_bot_def box_def Bounds_body_def NewPointTransformer_def Padding_def BotSize_def
  quo_def checked_quo_def signed_divide_int_def next_transformer_def overflows_def shrink_check_def
  shrinks_def word_sless_alt word_sle_eq ShrinkPercent_def renderable_def no_overflow_def fits_def
  grid_ends_def unsupported_def well_formed_def inside_def width_def height_def

section \<open>The bounds of a tick (claim C7)\<close>

text \<open>
  C7. \<open>Tick_Bounds\<close> fails, with the out-of-range access of the first bot, exactly when the
  tick has no bots. For a tick with at least one bot it returns a box whose minimum and
  maximum are, on each axis, the least and the greatest coordinate among the bots (borders
  included): every bot lies between them, and each of the four is the coordinate of some bot.
\<close>

theorem Tick_Bounds_correct:
  "(Tick_Bounds t = Inl IndexOutOfRange \<longleftrightarrow> Bots t = []) \<and>
   (Bots t \<noteq> [] \<longrightarrow>
     (\<exists>r. Tick_Bounds t = Inr r \<and>
        (\<forall>bt\<in>set (Bots t). Point_X (Rect_Min r) \<le>s X bt \<and> X bt \<le>s Point_X (Rect_Max r) \<and>
                            Point_Y (Rect_Min r) \<le>s Y bt \<and> Y bt \<le>s Point_Y (Rect_Max r)) \<and>
        (\<exists>bt\<in>set (Bots t). X bt = Point_X (Rect_Min r)) \<and>
        (\<exists>bt\<in>set (Bots t). X bt = Point_X (Rect_Max r)) \<and>
        (\<exists>bt\<in>set (Bots t). Y bt = Point_Y (Rect_Min r)) \<and>
        (\<exists>bt\<in>set (Bots t). Y bt = Point_Y (Rect_Max r))))"
proof (cases "Bots t = []")
  case True
  then show ?thesis by (simp add: Tick_Bounds_empty)
next
  case False
  then obtain r where r: "Tick_Bounds t = Inr r" using Tick_Bounds_Inr by blast
  from Tick_Bounds_props[OF r] r False show ?thesis by simp
qed

theorem Tick_Bounds_correct_witness:
  "Bots \<lparr>Tick = 0, Bots = [mk_bot 1 3 (- 4) 12, mk_bot 2 (- 7) 9 12, mk_bot 1 5 5 0]\<rparr> \<noteq> [] \<and>
   Tick_Bounds \<lparr>Tick = 0, Bots = [mk_bot 1 3 (- 4) 12, mk_bot 2 (- 7) 9 12, mk_bot 1 5 5 0]\<rparr>
     = Inr (box (- 7) (- 4) 5 9) \<and>
   Tick_Bounds \<lparr>Tick = 0, Bots = []\<rparr> = Inl IndexOutOfRange"
  using Tick_Bounds_correct [of "\<lparr>Tick = 0, Bots = [mk_bot 1 3 (- 4) 12, mk_bot 2 (- 7) 9 12, mk_bot 1 5 5 0]\<rparr>"]
        Tick_Bounds_correct [of "\<lparr>Tick = 0, Bots = []\<rparr>"]
  by (simp add: Tick_Bounds_def Bounds_body_def mk_bot_def box_def word_sless_alt)

section \<open>Shape of the stored box (claim C1)\<close>

text \<open>
  C1, as amended. Where no step of \<open>NewPointTransformer\<close> overflows, the width and the height
  of the stored box differ by at most one: they are equal exactly when the width and the
  height of the given box differ by an even number, and the longer of the two is the longer
  side of the given box plus the padding on both ends. The halves \<^verbatim>\<open>extra / 2\<close> are
  truncated, so an odd difference leaves the shorter side one short.
\<close>

theorem NewPointTransformer_nearly_square:
  assumes "no_overflow b p"
  shows "\<bar>width (Bounds (NewPointTransformer b p s)) - height (Bounds (NewPointTransformer b p s))\<bar> \<le> 1 \<and>
         (width (Bounds (NewPointTransformer b p s)) = height (Bounds (NewPointTransformer b p s))
            \<longleftrightarrow> even (width b - height b)) \<and>
         max (width (Bounds (NewPointTransformer b p s))) (height (Bounds (NewPointTransformer b p s)))
            = max (width b) (height b) + 2 * sint p"
  unfolding width_New[OF assms] by (cases "height b < width b") presburger+

text \<open>
  C1 as stated fails: the box from \<open>(0, 0)\<close> to \<open>(1, 0)\<close> with padding 120 is stored with
  width 241 and height 240.
\<close>

theorem NewPointTransformer_square_counterexample:
  "width (Bounds (NewPointTransformer (box 0 0 1 0) 120 600)) = 241 \<and>
   height (Bounds (NewPointTransformer (box 0 0 1 0) 120 600)) = 240"
  by (simp add: width_def height_def NewPointTransformer_def box_def word_sless_alt quo_def signed_divide_int_def)

theorem NewPointTransformer_nearly_square_witness:
  "no_overflow (box 0 0 100 50) 120 \<and>
   width (Bounds (NewPointTransformer (box 0 0 100 50) 120 600)) = 340 \<and>
   height (Bounds (NewPointTransformer (box 0 0 100 50) 120 600)) = 340 \<and>
   no_overflow (box 0 0 1 0) 120 \<and>
   \<bar>width (Bounds (NewPointTransformer (box 0 0 1 0) 120 600))
     - height (Bounds (NewPointTransformer (box 0 0 1 0) 120 600))\<bar> = 1"
proof -
  have h: "no_overflow (box 0 0 100 50) 120" "no_overflow (box 0 0 1 0) 120"
    by (simp_all add: no_overflow_def box_def fits_def)
  have w: "width (box 0 0 100 50) = 100" "height (box 0 0 100 50) = 50"
          "width (box 0 0 1 0) = 1" "height (box 0 0 1 0) = 0"
    by (simp_all add: width_def height_def box_def)
  from NewPointTransformer_nearly_square[OF h(1), of 600]
       NewPointTransformer_nearly_square[OF h(2), of 600] h w
  show ?thesis by (simp add: max_def split: if_splits) 
qed

section \<open>Transformed points stay on the raster (claim C4)\<close>

text \<open>
  C4, as amended. Let \<open>T\<close> be built by \<open>NewPointTransformer\<close> from a well-formed bounding
  box with a positive padding and a target size \<open>S \<ge> 0\<close>, with no overflow in the
  construction. Then for every world point inside the stored box, \<open>T.X\<close> and \<open>T.Y\<close> lie in
  \<open>[0, S]\<close>, in exact arithmetic. Nothing is clamped, and nothing is claimed of points outside.
\<close>

theorem transformed_point_in_raster:
  assumes "well_formed b" and "0 <s p" and "0 \<le>s s" and "no_overflow b p"
      and "inside x y (Bounds (NewPointTransformer b p s))"
  shows "0 \<le> PointTransformer_X (NewPointTransformer b p s) x \<and>
         PointTransformer_X (NewPointTransformer b p s) x \<le> float64 s \<and>
         0 \<le> PointTransformer_Y (NewPointTransformer b p s) y \<and>
         PointTransformer_Y (NewPointTransformer b p s) y \<le> float64 s"
proof -
  let ?pt = "NewPointTransformer b p s"
  let ?L = "max (width (Bounds ?pt)) (height (Bounds ?pt))"
  have p: "0 < sint p" and s: "0 \<le> float64 s"
    using assms(2,3) by (simp_all add: sless_iff sle_iff float64_def del: of_int_sint)
  from New_extent_ge[OF assms(1,4), of s] p have L: "0 < ?L" by simp
  have fw: "fits (width (Bounds ?pt))" "fits (height (Bounds ?pt))"
    using sint_width_New[OF assms(4), of s] fits_sint by metis+
  from assms(5) have i: "sint (Point_X (Rect_Min (Bounds ?pt))) \<le> sint x"
      "sint x \<le> sint (Point_X (Rect_Max (Bounds ?pt)))"
      "sint (Point_Y (Rect_Min (Bounds ?pt))) \<le> sint y"
      "sint y \<le> sint (Point_Y (Rect_Max (Bounds ?pt)))"
    by (simp_all add: inside_def sle_iff)
  have nx: "sint (x + (- 1) * Point_X (Rect_Min (Bounds ?pt))) = sint x - sint (Point_X (Rect_Min (Bounds ?pt)))"
    using i fw by (intro sint_offset[where k="width (Bounds ?pt)"]) (simp_all add: width_def)
  have ny: "sint (y + (- 1) * Point_Y (Rect_Min (Bounds ?pt))) = sint y - sint (Point_Y (Rect_Min (Bounds ?pt)))"
    using i fw by (intro sint_offset[where k="height (Bounds ?pt)"]) (simp_all add: height_def)
  have bxi: "0 \<le> sint x - sint (Point_X (Rect_Min (Bounds ?pt)))"
           "sint x - sint (Point_X (Rect_Min (Bounds ?pt))) \<le> ?L"
    using i by (simp_all add: width_def max_def)
  have byi: "0 \<le> sint y - sint (Point_Y (Rect_Min (Bounds ?pt)))"
           "sint y - sint (Point_Y (Rect_Min (Bounds ?pt))) \<le> ?L"
    using i by (simp_all add: height_def max_def)
  have bx: "0 \<le> real_of_int (sint x - sint (Point_X (Rect_Min (Bounds ?pt))))"
           "real_of_int (sint x - sint (Point_X (Rect_Min (Bounds ?pt)))) \<le> real_of_int ?L"
    using bxi by (simp_all only: of_int_0_le_iff of_int_le_iff)
  have by': "0 \<le> real_of_int (sint y - sint (Point_Y (Rect_Min (Bounds ?pt))))"
           "real_of_int (sint y - sint (Point_Y (Rect_Min (Bounds ?pt)))) \<le> real_of_int ?L"
    using byi by (simp_all only: of_int_0_le_iff of_int_le_iff)
  have L': "0 < real_of_int ?L" using L by (simp only: of_int_0_less_iff)
  show ?thesis
    unfolding PointTransformer_X_def PointTransformer_Y_def New_ratio[OF assms(4)] float64_def[of "x + _"] float64_def[of "y + _"] nx ny
    using scale_in_range[OF s bx L'] scale_in_range[OF s by' L'] by blast
qed

text \<open>
  C4 as stated fails where the construction overflows: for the box from
  \<open>(-2\<^sup>6\<^sup>2, -2\<^sup>6\<^sup>2)\<close> to \<open>(2\<^sup>6\<^sup>2, 2\<^sup>6\<^sup>2 - 200)\<close> both lengths wrap to negative numbers, the
  ratio is negative, and the point \<open>(0, 0)\<close> of the stored box is sent left of \<open>-300\<close>.
\<close>

theorem transformed_point_counterexample:
  "inside 0 0 (Bounds (NewPointTransformer (box (- (2 ^ 62)) (- (2 ^ 62)) (2 ^ 62) (2 ^ 62 - 200)) 120 600)) \<and>
   PointTransformer_X (NewPointTransformer (box (- (2 ^ 62)) (- (2 ^ 62)) (2 ^ 62) (2 ^ 62 - 200)) 120 600) 0 < - 300"
  by (simp add: inside_def NewPointTransformer_def box_def word_sless_alt word_sle_eq quo_def
       signed_divide_int_def PointTransformer_X_def float64_def)

theorem transformed_point_in_raster_witness:
  "well_formed (box 0 0 100 50) \<and> 0 <s (120::go_int) \<and> 0 \<le>s (600::go_int) \<and> no_overflow (box 0 0 100 50) 120 \<and>
   inside 220 (- 145) (Bounds (NewPointTransformer (box 0 0 100 50) 120 600)) \<and>
   PointTransformer_X (NewPointTransformer (box 0 0 100 50) 120 600) 220 = 600 \<and>
   PointTransformer_Y (NewPointTransformer (box 0 0 100 50) 120 600) (- 145) = 0"
proof -
  have h: "well_formed (box 0 0 100 50)" "0 <s (120::go_int)" "0 \<le>s (600::go_int)"
      "no_overflow (box 0 0 100 50) 120"
      "inside 220 (- 145) (Bounds (NewPointTransformer (box 0 0 100 50) 120 600))"
    by (simp_all add: well_formed_def box_def word_sless_alt word_sle_eq no_overflow_def fits_def
         inside_def NewPointTransformer_def quo_def signed_divide_int_def)
  have v: "PointTransformer_X (NewPointTransformer (box 0 0 100 50) 120 600) 220 = 600"
     "PointTransformer_Y (NewPointTransformer (box 0 0 100 50) 120 600) (- 145) = 0"
    by (simp_all add: NewPointTransformer_def box_def word_sless_alt quo_def
       signed_divide_int_def PointTransformer_X_def PointTransformer_Y_def float64_def)
  from transformed_point_in_raster[OF h] h v show ?thesis by simp
qed

section \<open>The stored box is never degenerate (claim C9)\<close>

text \<open>
  C9, as amended. For every well-formed bounding box, the zero-area box of a single bot
  included, for which the construction with padding 120 does not overflow, the stored box is
  at least 240 wide and 240 high, the length that divides in the construction is at least
  240, and the shrink check of the main loop does not divide by zero against it.
\<close>

theorem stored_box_never_degenerate:
  assumes "well_formed b" "no_overflow b Padding"
  shows "240 \<le> width (Bounds (NewPointTransformer b Padding s)) \<and>
         240 \<le> height (Bounds (NewPointTransformer b Padding s)) \<and>
         (\<exists>L\<ge>240. ratio (NewPointTransformer b Padding s) = float64 s / real_of_int L) \<and>
         (\<forall>tickBounds. shrink_check tickBounds (NewPointTransformer b Padding s) \<noteq> Inl DivideByZero)"
proof -
  let ?pt = "NewPointTransformer b Padding s"
  have p: "sint Padding = 120" by (simp add: Padding_def BotSize_def)
  from New_extent_ge[OF assms, of s] p
  have w: "240 \<le> width (Bounds ?pt)" and h: "240 \<le> height (Bounds ?pt)" by simp_all
  have nz: "Point_X (Rect_Max (Bounds ?pt)) - Point_X (Rect_Min (Bounds ?pt)) \<noteq> 0"
           "Point_Y (Rect_Max (Bounds ?pt)) - Point_Y (Rect_Min (Bounds ?pt)) \<noteq> 0"
    using sint_width_New[OF assms(2), of s] w h by auto
  have r: "ratio ?pt = float64 s / real_of_int (max (width b + 2 * sint Padding) (height b + 2 * sint Padding))"
    unfolding New_Bounds(5)[OF assms(2)] width_def height_def by (simp add: algebra_simps)
  have "240 \<le> max (width b + 2 * sint Padding) (height b + 2 * sint Padding)"
    using assms(1) p by (simp add: well_formed_extent max_def)
  with r have "\<exists>L\<ge>240. ratio ?pt = float64 s / real_of_int L" by blast
  moreover have "\<forall>tickBounds. shrink_check tickBounds ?pt \<noteq> Inl DivideByZero"
    by (simp add: shrink_check_Inr[OF nz])
  ultimately show ?thesis using w h by blast
qed

text \<open>
  C9 as stated fails where the construction overflows: two bots at
  \<open>(-2\<^sup>6\<^sup>3, -2\<^sup>6\<^sup>3)\<close> and \<open>(2\<^sup>6\<^sup>3 - 240, 2\<^sup>6\<^sup>3 - 240)\<close> give a stored box of width and height
  0, and the run ends in the panic of the integer division by zero.
\<close>

theorem stored_box_degenerate_counterexample:
  "well_formed (box (- (2 ^ 63)) (- (2 ^ 63)) (2 ^ 63 - 240) (2 ^ 63 - 240)) \<and>
   width (Bounds (NewPointTransformer (box (- (2 ^ 63)) (- (2 ^ 63)) (2 ^ 63 - 240) (2 ^ 63 - 240)) Padding 600)) = 0 \<and>
   height (Bounds (NewPointTransformer (box (- (2 ^ 63)) (- (2 ^ 63)) (2 ^ 63 - 240) (2 ^ 63 - 240)) Padding 600)) = 0 \<and>
   main 8 12 600 [\<lparr>Tick = 0, Bots = [mk_bot 1 (- (2 ^ 63)) (- (2 ^ 63)) 12,
                                       mk_bot 2 (2 ^ 63 - 240) (2 ^ 63 - 240) 12]\<rparr>]
     = Some (Inl DivideByZero)"
  by (simp add: eval main_def)

theorem stored_box_never_degenerate_witness:
  "well_formed (box 0 0 0 0) \<and> no_overflow (box 0 0 0 0) Padding \<and>
   width (Bounds (NewPointTransformer (box 0 0 0 0) Padding 600)) = 240 \<and>
   height (Bounds (NewPointTransformer (box 0 0 0 0) Padding 600)) = 240 \<and>
   shrink_check (box 0 0 0 0) (NewPointTransformer (box 0 0 0 0) Padding 600) = Inr True"
proof -
  have h: "well_formed (box 0 0 0 0)" "no_overflow (box 0 0 0 0) Padding"
    by (simp_all add: eval)
  have v: "width (Bounds (NewPointTransformer (box 0 0 0 0) Padding 600)) = 240"
          "height (Bounds (NewPointTransformer (box 0 0 0 0) Padding 600)) = 240"
          "shrink_check (box 0 0 0 0) (NewPointTransformer (box 0 0 0 0) Padding 600) = Inr True"
    by (simp_all add: eval)
  from stored_box_never_degenerate[OF h, of 600] h v show ?thesis by simp
qed

section \<open>A rebuilt transformer holds its tick (claim C10)\<close>

text \<open>
  C10, as amended. Whenever a transformer is built from a tick's bounds with padding
  \<open>Padding\<close> without overflow, the overflow condition of the main loop, evaluated for the
  same bounds against the new transformer, is false.
\<close>

theorem rebuilt_transformer_holds_tick:
  assumes "no_overflow tickBounds Padding"
  shows "\<not> overflows tickBounds (NewPointTransformer tickBounds Padding imageSize)"
proof -
  let ?pt = "NewPointTransformer tickBounds Padding imageSize"
  have p: "sint Padding = 120" "sint BotSize = 60" by (simp_all add: Padding_def BotSize_def)
  from assms have f: "fits (sint (Point_X (Rect_Min tickBounds)) - 120)"
      "fits (sint (Point_Y (Rect_Min tickBounds)) - 120)"
      "fits (sint (Point_X (Rect_Max tickBounds)) + 120)"
      "fits (sint (Point_Y (Rect_Max tickBounds)) + 120)"
    by (simp_all add: no_overflow_def Let_def p)
  have s: "fits (sint (Point_X (Rect_Min tickBounds)))" "fits (sint (Point_Y (Rect_Min tickBounds)))"
     "fits (sint (Point_X (Rect_Max tickBounds)))" "fits (sint (Point_Y (Rect_Max tickBounds)))"
    by (rule fits_sint)+
  have m: "sint (Point_X (Rect_Min tickBounds) - BotSize) = sint (Point_X (Rect_Min tickBounds)) - 60"
      "sint (Point_Y (Rect_Min tickBounds) - BotSize) = sint (Point_Y (Rect_Min tickBounds)) - 60"
      "sint (Point_X (Rect_Max tickBounds) + BotSize) = sint (Point_X (Rect_Max tickBounds)) + 60"
      "sint (Point_Y (Rect_Max tickBounds) + BotSize) = sint (Point_Y (Rect_Max tickBounds)) + 60"
    using f s by (simp_all add: sint_add_fits sint_sub_fits p fits_def)
  show ?thesis
    unfolding overflows_def sless_iff m New_Bounds[OF assms] p
    by simp presburger
qed

text \<open>
  C10 as stated fails where the padding wraps around: for a single bot at
  \<open>(100 - 2\<^sup>6\<^sup>3, 0)\<close> the padded minimum becomes a large positive number, and the overflow
  condition holds against the transformer just built.
\<close>

theorem rebuilt_transformer_counterexample:
  "overflows (box (100 - 2 ^ 63) 0 (100 - 2 ^ 63) 0)
     (NewPointTransformer (box (100 - 2 ^ 63) 0 (100 - 2 ^ 63) 0) Padding 600)"
  by (simp add: eval)

theorem rebuilt_transformer_holds_tick_witness:
  "no_overflow (box 0 0 100 50) Padding \<and>
   \<not> overflows (box 0 0 100 50) (NewPointTransformer (box 0 0 100 50) Padding 600)"
proof -
  have h: "no_overflow (box 0 0 100 50) Padding" by (simp add: eval)
  from rebuilt_transformer_holds_tick[OF h, of 600] h show ?thesis by simp
qed

section \<open>The delays (claims C8 and C2)\<close>

text \<open>
  C8. In a run of exactly one tick that reaches the encoder, the only delay is
  \<open>(100 / v) * 10\<close>: the assignment for the last frame comes after the one for the first and
  wins. The product does not wrap, and the division is the truncated one.
\<close>

theorem single_tick_delay:
  assumes "main th v s [t] = Some (Inr gif)"
  shows "Delay gif = [quo 100 v * 10] \<and> sint (quo 100 v * 10) = 100 div sint v * 10"
  using main_delays(1)[OF assms] main_speed[OF assms] sint_delay(2)[of v] by simp

theorem single_tick_delay_witness:
  "map_option (map_sum id Delay) (main 8 12 600 [\<lparr>Tick = 0, Bots = [mk_bot 1 0 0 12]\<rparr>])
     = Some (Inr [80])"
proof -
  have "\<exists>gif. main 8 12 600 [\<lparr>Tick = 0, Bots = [mk_bot 1 0 0 12]\<rparr>] = Some (Inr gif)"
    by (rule main_returns) (simp_all add: eval)
  then obtain gif where h: "main 8 12 600 [\<lparr>Tick = 0, Bots = [mk_bot 1 0 0 12]\<rparr>] = Some (Inr gif)" ..
  from single_tick_delay[OF h] have "Delay gif = [80]" by (simp add: quo_def signed_divide_int_def)
  with h show ?thesis by simp
qed

text \<open>
  C2. The code at a run of three ticks with speed 12: the delays are \<open>[1, 8, 80]\<close>. The
  first slot is \<^verbatim>\<open>100 / 100\<close>, which is 1, not 100.
\<close>

theorem first_delay_is_one:
  "map_option (map_sum id Delay)
     (main 8 12 600 [\<lparr>Tick = 0, Bots = [mk_bot 1 0 0 12]\<rparr>, \<lparr>Tick = 1, Bots = [mk_bot 1 0 0 12]\<rparr>,
                     \<lparr>Tick = 2, Bots = [mk_bot 1 0 0 12]\<rparr>])
     = Some (Inr [1, 8, 80])"
proof -
  let ?ticks = "[\<lparr>Tick = 0, Bots = [mk_bot 1 0 0 12]\<rparr>, \<lparr>Tick = 1, Bots = [mk_bot 1 0 0 12]\<rparr>,
                     \<lparr>Tick = 2, Bots = [mk_bot 1 0 0 12]\<rparr>]"
  have "\<exists>gif. main 8 12 600 ?ticks = Some (Inr gif)"
    by (rule main_returns) (simp_all add: eval)
  then obtain gif where h: "main 8 12 600 ?ticks = Some (Inr gif)" ..
  from main_delays(2)[OF h] have "Delay gif = [1, 8, 80]"
    by (simp add: quo_def signed_divide_int_def)
  with h show ?thesis by simp
qed

section \<open>When the transformer is rebuilt (claim C3)\<close>

text \<open>
  C3. In every run that reaches the encoder, the transformer that renders tick \<open>i\<close> is
  \<open>NewPointTransformer\<close> of that tick's own bounds if \<open>i\<close> is the first tick, or the bounds
  grown by \<open>BotSize\<close> leave the box of the transformer of tick \<open>i - 1\<close> on one of the four
  sides, or both percentages of the shrink check, in truncating division, are at most 75
  against that transformer; otherwise it is the transformer of tick \<open>i - 1\<close>, unchanged.
\<close>

theorem transformer_rebuilt_iff:
  assumes "main th v s ticks = Some (Inr gif)" and "i < length ticks"
  shows "\<exists>tickBounds f.
           Tick_Bounds (ticks ! i) = Inr tickBounds \<and> Image gif ! i = Some f \<and>
           transformer f =
             (if i = 0 \<or> overflows tickBounds (transformer (the (Image gif ! (i - 1))))
                       \<or> shrinks tickBounds (transformer (the (Image gif ! (i - 1))))
              then NewPointTransformer tickBounds Padding s
              else transformer (the (Image gif ! (i - 1))))"
  using main_frames[OF assms] by blast

theorem transformer_rebuilt_iff_witness:
  "\<exists>gif. main 8 12 600 four_ticks = Some (Inr gif) \<and>
     map_option transformer (Image gif ! 0) = Some (NewPointTransformer (box 0 0 800 0) Padding 600) \<and>
     map_option transformer (Image gif ! 1) = Some (NewPointTransformer (box 0 0 800 0) Padding 600) \<and>
     map_option transformer (Image gif ! 2) = Some (NewPointTransformer (box 0 0 900 0) Padding 600) \<and>
     map_option transformer (Image gif ! 3) = Some (NewPointTransformer (box 0 0 100 0) Padding 600)"
proof -
  let ?p0 = "NewPointTransformer (box 0 0 800 0) Padding 600"
  let ?p2 = "NewPointTransformer (box 0 0 900 0) Padding 600"
  let ?p3 = "NewPointTransformer (box 0 0 100 0) Padding 600"
  have b: "Tick_Bounds (four_ticks ! 0) = Inr (box 0 0 800 0)"
          "Tick_Bounds (four_ticks ! 1) = Inr (box 0 0 810 0)"
          "Tick_Bounds (four_ticks ! 2) = Inr (box 0 0 900 0)"
          "Tick_Bounds (four_ticks ! 3) = Inr (box 0 0 100 0)"
    by (simp_all add: four_ticks_def eval)
  have kept: "\<not> overflows (box 0 0 810 0) ?p0" "\<not> shrinks (box 0 0 810 0) ?p0"
    by (simp_all add: eval)
  have over: "overflows (box 0 0 900 0) ?p0"
    by (simp add: eval)
  have shrunk: "\<not> overflows (box 0 0 100 0) ?p2" "shrinks (box 0 0 100 0) ?p2"
    by (simp_all add: eval)
  have "\<exists>gif. main 8 12 600 four_ticks = Some (Inr gif)"
    by (rule main_returns) (simp_all add: four_ticks_def eval)
  then obtain gif where h: "main 8 12 600 four_ticks = Some (Inr gif)" ..
  have l: "0 < length four_ticks" "1 < length four_ticks" "2 < length four_ticks"
          "3 < length four_ticks"
    by (simp_all add: four_ticks_def)
  from transformer_rebuilt_iff[OF h l(1)] b(1)
  obtain f0 where f0: "Image gif ! 0 = Some f0" "transformer f0 = ?p0" by auto
  from transformer_rebuilt_iff[OF h l(2)] b(2) f0 kept
  obtain f1 where f1: "Image gif ! 1 = Some f1" "transformer f1 = ?p0" by auto
  from transformer_rebuilt_iff[OF h l(3)] b(3) f1 over
  obtain f2 where f2: "Image gif ! 2 = Some f2" "transformer f2 = ?p2" by auto
  from transformer_rebuilt_iff[OF h l(4)] b(4) f2 shrunk
  obtain f3 where f3: "Image gif ! 3 = Some f3" "transformer f3 = ?p3" by auto
  from h f0 f1 f2 f3 show ?thesis by simp
qed

section \<open>Unsupported players (claim C5)\<close>




end
